theory Spec2Isabelle
  imports Main "HOL-Library.Word"
begin

unbundle bit_operations_syntax

section \<open>Paging constants of arch/x86/include/asm/page.h\<close>

text \<open>
  The kernel targets 32-bit x86: \<open>size_t\<close>, \<open>long\<close> and \<open>int\<close> are all 32 bits wide,
  so every macro of the header is a 32-bit machine word here.
\<close>

type_synonym size_t = "32 word"
type_synonym page_entry_t = "32 word"

definition PAGE_BITS :: nat where
  "PAGE_BITS = 12"

definition PAGE_SIZE :: size_t where
  "PAGE_SIZE = push_bit PAGE_BITS 1"

definition BITS :: nat where
  "BITS = 32"

definition VIRT_BITS :: nat where
  "VIRT_BITS = BITS"

definition PHYS_BITS :: nat where
  "PHYS_BITS = BITS"

definition PAGE_MAP_BITS :: nat where
  "PAGE_MAP_BITS = 10"

definition PAGE_MAP_LEVELS :: nat where
  "PAGE_MAP_LEVELS = 2"

definition PAGE_MASK :: size_t where
  "PAGE_MASK = 0xFFFFF000"

definition CANONICAL :: "size_t \<Rightarrow> size_t" where
  "CANONICAL addr = addr"

definition PAGE_MAP_ENTRIES :: size_t where
  "PAGE_MAP_ENTRIES = push_bit PAGE_MAP_BITS 1"

definition PAGE_MAP_PGD :: size_t where
  "PAGE_MAP_PGD = 0xFFFFF000"

definition PAGE_MAP_PGT :: size_t where
  "PAGE_MAP_PGT = 0xFFC00000"

definition PAGE_FLOOR :: "size_t \<Rightarrow> size_t" where
  "PAGE_FLOOR addr = (addr + PAGE_SIZE - 1) AND PAGE_MASK"

definition PAGE_CEIL :: "size_t \<Rightarrow> size_t" where
  "PAGE_CEIL addr = addr AND PAGE_MASK"

definition PG_PRESENT :: size_t where
  "PG_PRESENT = push_bit 0 1"

definition PG_RW :: size_t where
  "PG_RW = push_bit 1 1"

definition PG_USER :: size_t where
  "PG_USER = push_bit 2 1"

definition PG_PWT :: size_t where
  "PG_PWT = push_bit 3 1"

definition PG_PCD :: size_t where
  "PG_PCD = push_bit 4 1"

definition PG_ACCESSED :: size_t where
  "PG_ACCESSED = push_bit 5 1"

definition PG_DIRTY :: size_t where
  "PG_DIRTY = push_bit 6 1"

definition PG_PSE :: size_t where
  "PG_PSE = push_bit 7 1"

definition PG_PAT :: size_t where
  "PG_PAT = PG_PSE"

definition PG_GLOBAL :: size_t where
  "PG_GLOBAL = push_bit 8 1"

definition PG_BOOT :: size_t where
  "PG_BOOT = push_bit 9 1"

text \<open>The ten Entry flag masks, in the order of the header.\<close>

definition entry_flag_masks :: "size_t list" where
  "entry_flag_masks =
     [PG_PRESENT, PG_RW, PG_USER, PG_PWT, PG_PCD, PG_ACCESSED, PG_DIRTY, PG_PSE,
      PG_GLOBAL, PG_BOOT]"

text \<open>
  The usual test of a flag on an Entry: \<open>entry & FLAG\<close> is nonzero.
\<close>

definition entry_has :: "size_t \<Rightarrow> page_entry_t \<Rightarrow> bool" where
  "entry_has flag entry \<longleftrightarrow> entry AND flag \<noteq> 0"

subsection \<open>Splitting a virtual address\<close>

text \<open>
  Modelled from the spec: the helpers that split a virtual address live in the paging
  implementation (arch/x86/mm/page.c), which is not part of the sources at hand. The
  split below is the one the header's constants fix: \<open>PAGE_BITS\<close> offset bits, then
  \<open>PAGE_MAP_BITS\<close> bits of table index, then \<open>PAGE_MAP_BITS\<close> bits of directory index
  (10 + 10 + 12).
\<close>

definition pgd_index :: "size_t \<Rightarrow> nat" where
  "pgd_index viraddr = unat (drop_bit (PAGE_BITS + PAGE_MAP_BITS) viraddr)"

definition pgt_index :: "size_t \<Rightarrow> nat" where
  "pgt_index viraddr = unat (drop_bit PAGE_BITS viraddr AND (PAGE_MAP_ENTRIES - 1))"

definition page_offset :: "size_t \<Rightarrow> size_t" where
  "page_offset viraddr = viraddr AND NOT PAGE_MASK"

definition join_address :: "nat \<Rightarrow> nat \<Rightarrow> size_t \<Rightarrow> size_t" where
  "join_address di ti off =
     push_bit (PAGE_BITS + PAGE_MAP_BITS) (of_nat di) OR push_bit PAGE_BITS (of_nat ti) OR off"

text \<open>
  Modelled from the spec: the address of the second-level Table of a directory index
  inside the self-map window, "computed by directory index" from \<open>PAGE_MAP_PGT\<close>.
\<close>

definition pgt_window :: "nat \<Rightarrow> size_t" where
  "pgt_window di = PAGE_MAP_PGT + of_nat di * PAGE_SIZE"

definition page_aligned :: "size_t \<Rightarrow> bool" where
  "page_aligned addr \<longleftrightarrow> addr AND NOT PAGE_MASK = 0"

section \<open>CPU features of arch/x86/include/asm/processor.h\<close>

text \<open>
  \<open>cpu_info\<close> is a global of the kernel. The accessors take the machine state that
  holds it and return their result with the state they leave behind; the record is
  extensible, so the rest of the machine state is arbitrary. The feature masks are used
  only in \<open>&\<close> with a \<open>uint32_t\<close> field, so they are 32-bit words here;
  \<open>1 << 31\<close> is the word with only bit 31 set.
\<close>

definition CPU_FEATURE_FPU :: "32 word" where
  "CPU_FEATURE_FPU = push_bit 0 1"

definition CPU_FEATURE_MSR :: "32 word" where
  "CPU_FEATURE_MSR = push_bit 5 1"

definition CPU_FEATURE_APIC :: "32 word" where
  "CPU_FEATURE_APIC = push_bit 9 1"

definition CPU_FEATURE_MMX :: "32 word" where
  "CPU_FEATURE_MMX = push_bit 23 1"

definition CPU_FEATURE_FXSR :: "32 word" where
  "CPU_FEATURE_FXSR = push_bit 24 1"

definition CPU_FEATURE_SSE :: "32 word" where
  "CPU_FEATURE_SSE = push_bit 25 1"

definition CPU_FEATURE_SSE2 :: "32 word" where
  "CPU_FEATURE_SSE2 = push_bit 26 1"

definition CPU_FEATURE_X2APIC :: "32 word" where
  "CPU_FEATURE_X2APIC = push_bit 21 1"

definition CPU_FEATURE_AVX :: "32 word" where
  "CPU_FEATURE_AVX = push_bit 28 1"

definition CPU_FEATURE_HYPERVISOR :: "32 word" where
  "CPU_FEATURE_HYPERVISOR = push_bit 31 1"

record cpu_info_t =
  feature1 :: "32 word"
  feature2 :: "32 word"

record machine =
  cpu_info :: cpu_info_t

definition has_fpu :: "'a machine_scheme \<Rightarrow> 32 word \<times> 'a machine_scheme" where
  "has_fpu s = (feature1 (cpu_info s) AND CPU_FEATURE_FPU, s)"

definition has_msr :: "'a machine_scheme \<Rightarrow> 32 word \<times> 'a machine_scheme" where
  "has_msr s = (feature1 (cpu_info s) AND CPU_FEATURE_MSR, s)"

definition has_apic :: "'a machine_scheme \<Rightarrow> 32 word \<times> 'a machine_scheme" where
  "has_apic s = (feature1 (cpu_info s) AND CPU_FEATURE_APIC, s)"

definition has_fxsr :: "'a machine_scheme \<Rightarrow> 32 word \<times> 'a machine_scheme" where
  "has_fxsr s = (feature1 (cpu_info s) AND CPU_FEATURE_FXSR, s)"

definition has_sse :: "'a machine_scheme \<Rightarrow> 32 word \<times> 'a machine_scheme" where
  "has_sse s = (feature1 (cpu_info s) AND CPU_FEATURE_SSE, s)"

definition has_sse2 :: "'a machine_scheme \<Rightarrow> 32 word \<times> 'a machine_scheme" where
  "has_sse2 s = (feature1 (cpu_info s) AND CPU_FEATURE_SSE2, s)"

definition has_x2apic :: "'a machine_scheme \<Rightarrow> 32 word \<times> 'a machine_scheme" where
  "has_x2apic s = (feature2 (cpu_info s) AND CPU_FEATURE_X2APIC, s)"

definition has_avx :: "'a machine_scheme \<Rightarrow> 32 word \<times> 'a machine_scheme" where
  "has_avx s = (feature2 (cpu_info s) AND CPU_FEATURE_AVX, s)"

definition on_hypervisor :: "'a machine_scheme \<Rightarrow> 32 word \<times> 'a machine_scheme" where
  "on_hypervisor s = (feature2 (cpu_info s) AND CPU_FEATURE_HYPERVISOR, s)"

definition reads_feature_bit ::
  "('a machine_scheme \<Rightarrow> 32 word \<times> 'a machine_scheme) \<Rightarrow> (cpu_info_t \<Rightarrow> 32 word) \<Rightarrow> nat \<Rightarrow> bool"
  where
  "reads_feature_bit f sel b \<longleftrightarrow>
     (\<forall>s. snd (f s) = s)
     \<and> (\<forall>s s'. cpu_info s = cpu_info s' \<longrightarrow> fst (f s) = fst (f s'))
     \<and> (\<forall>s. (fst (f s) \<noteq> 0) = bit (sel (cpu_info s)) b)"

section \<open>System-call numbers of include/eduos/syscall.h\<close>

text \<open>The macros \<open>__NR_exit\<close> to \<open>__NR_dup2\<close>, without the leading underscores.\<close>

definition NR_exit :: int where
  "NR_exit = 0"

definition NR_write :: int where
  "NR_write = 1"

definition NR_open :: int where
  "NR_open = 2"

definition NR_close :: int where
  "NR_close = 3"

definition NR_read :: int where
  "NR_read = 4"

definition NR_lseek :: int where
  "NR_lseek = 6"

definition NR_unlink :: int where
  "NR_unlink = 7"

definition NR_getpid :: int where
  "NR_getpid = 8"

definition NR_kill :: int where
  "NR_kill = 9"

definition NR_fstat :: int where
  "NR_fstat = 10"

definition NR_sbrk :: int where
  "NR_sbrk = 11"

definition NR_fork :: int where
  "NR_fork = 12"

definition NR_wait :: int where
  "NR_wait = 13"

definition NR_execve :: int where
  "NR_execve = 14"

definition NR_times :: int where
  "NR_times = 15"

definition NR_accept :: int where
  "NR_accept = 16"

definition NR_bind :: int where
  "NR_bind = 17"

definition NR_closesocket :: int where
  "NR_closesocket = 18"

definition NR_connect :: int where
  "NR_connect = 19"

definition NR_listen :: int where
  "NR_listen = 20"

definition NR_recv :: int where
  "NR_recv = 21"

definition NR_send :: int where
  "NR_send = 22"

definition NR_socket :: int where
  "NR_socket = 23"

definition NR_getsockopt :: int where
  "NR_getsockopt = 24"

definition NR_setsockopt :: int where
  "NR_setsockopt = 25"

definition NR_gethostbyname :: int where
  "NR_gethostbyname = 26"

definition NR_sendto :: int where
  "NR_sendto = 27"

definition NR_recvfrom :: int where
  "NR_recvfrom = 28"

definition NR_select :: int where
  "NR_select = 29"

definition NR_stat :: int where
  "NR_stat = 30"

definition NR_dup :: int where
  "NR_dup = 31"

definition NR_dup2 :: int where
  "NR_dup2 = 32"

definition syscall_numbers :: "int list" where
  "syscall_numbers =
     [NR_exit, NR_write, NR_open, NR_close, NR_read, NR_lseek, NR_unlink, NR_getpid,
      NR_kill, NR_fstat, NR_sbrk, NR_fork, NR_wait, NR_execve, NR_times, NR_accept,
      NR_bind, NR_closesocket, NR_connect, NR_listen, NR_recv, NR_send, NR_socket,
      NR_getsockopt, NR_setsockopt, NR_gethostbyname, NR_sendto, NR_recvfrom,
      NR_select, NR_stat, NR_dup, NR_dup2]"

section \<open>Address Space Manager\<close>

text \<open>
  Modelled from the spec: \<open>page_map\<close>, \<open>page_unmap\<close>, \<open>page_map_drop\<close> and
  \<open>virt_to_phys\<close> are only declared in page.h; their bodies (arch/x86/mm/page.c) and the
  Frame Allocator are not among the sources. The definitions of this section follow
  the spec's component design (section 4.1) and data model (section 3):

  \<^item> physical memory holds the frames; a frame that serves as a Directory or as a Table
    is read as its 1024 Entries;
  \<^item> the Directory is the frame that \<open>root\<close> names; the self-map window shows, for a
    directory index, the frame that the Directory entry of that index references. So the
    window of an index whose entry references the Directory itself (the recursive entry,
    index 1023 by \<open>PAGE_MAP_PGD = PAGE_MAP_PGT + 1023 * PAGE_SIZE\<close>) shows the Directory,
    and two entries that reference one frame show the same Table;
  \<^item> the Frame Allocator is a list of free frames: a request takes the first one and fails
    at once on the empty list, a release puts the frame back;
  \<^item> the split between the shared/kernel range and the private/user range is not given
    by the header, so the kernel range is a parameter, a predicate on directory indices;
  \<^item> every operation reports a status; the translation cache is not part of the model,
    since \<open>virt_to_phys\<close> walks the tables themselves.
\<close>

datatype status = Success | AllocationFailure | NotPresent | Misaligned | UnsupportedFeature

record paging =
  root :: size_t
  mem :: "size_t \<Rightarrow> nat \<Rightarrow> page_entry_t"
  frames :: "size_t list"

text \<open>Modelled from the spec: the Frame Allocator's request and release.\<close>

definition frame_alloc :: "size_t list \<Rightarrow> (size_t \<times> size_t list) option" where
  "frame_alloc fs = (case fs of [] \<Rightarrow> None | f # fs' \<Rightarrow> Some (f, fs'))"


text \<open>
  Modelled from the spec: the accessors of the self-map window. \<open>pgd s di\<close> is the
  Directory entry of index \<open>di\<close>, \<open>table_frame s di\<close> the frame it references, and
  \<open>pgt s di ti\<close> the Entry of index \<open>ti\<close> in that frame.
\<close>

definition pgd :: "paging \<Rightarrow> nat \<Rightarrow> page_entry_t" where
  "pgd s di = mem s (root s) di"

definition table_frame :: "paging \<Rightarrow> nat \<Rightarrow> size_t" where
  "table_frame s di = pgd s di AND PAGE_MASK"

definition pgt :: "paging \<Rightarrow> nat \<Rightarrow> nat \<Rightarrow> page_entry_t" where
  "pgt s di ti = mem s (table_frame s di) ti"

definition write_entry :: "size_t \<Rightarrow> nat \<Rightarrow> page_entry_t \<Rightarrow> paging \<Rightarrow> paging" where
  "write_entry f i e s = s\<lparr>mem := (mem s)(f := (mem s f)(i := e))\<rparr>"

definition zero_frame :: "size_t \<Rightarrow> paging \<Rightarrow> paging" where
  "zero_frame f s = s\<lparr>mem := (mem s)(f := (\<lambda>_. 0))\<rparr>"

text \<open>
  Modelled from the spec: \<open>virt_to_phys\<close> decomposes the address, reads the Directory
  entry, then the Table entry; if either is absent it signals not-present, otherwise it
  returns the mapped physical base plus the in-page offset.
\<close>

definition virt_to_phys :: "paging \<Rightarrow> size_t \<Rightarrow> status + size_t" where
  "virt_to_phys s viraddr =
     (let di = pgd_index viraddr; ti = pgt_index viraddr in
      if \<not> entry_has PG_PRESENT (pgd s di) then Inl NotPresent
      else if \<not> entry_has PG_PRESENT (pgt s di ti) then Inl NotPresent
      else Inr ((pgt s di ti AND PAGE_MASK) + page_offset viraddr))"

text \<open>
  Modelled from the spec: one step of \<open>page_map\<close>. If the Directory entry is absent, a
  fresh frame is obtained, zeroed and installed as a new Table with present and writable
  (and user-accessible outside the kernel range); then the leaf Entry is written, through
  the window, with the physical address and the requested flags, setting present. A
  failed allocation reports the failure and leaves what was mapped before in place.
\<close>

definition map_page ::
  "(nat \<Rightarrow> bool) \<Rightarrow> size_t \<Rightarrow> size_t \<Rightarrow> size_t \<Rightarrow> paging \<Rightarrow> status \<times> paging" where
  "map_page kern viraddr phyaddr flags s =
     (let di = pgd_index viraddr; ti = pgt_index viraddr;
          leaf = phyaddr OR flags OR PG_PRESENT
      in if entry_has PG_PRESENT (pgd s di)
         then (Success, write_entry (table_frame s di) ti leaf s)
         else (case frame_alloc (frames s) of
                 None \<Rightarrow> (AllocationFailure, s)
               | Some (f, fs) \<Rightarrow>
                   (let s1 = zero_frame f (s\<lparr>frames := fs\<rparr>);
                        s2 = write_entry (root s1) di
                               (f OR PG_PRESENT OR PG_RW OR (if kern di then 0 else PG_USER)) s1
                    in (Success, write_entry (table_frame s2 di) ti leaf s2))))"

fun page_map_loop ::
  "(nat \<Rightarrow> bool) \<Rightarrow> size_t \<Rightarrow> size_t \<Rightarrow> nat \<Rightarrow> size_t \<Rightarrow> paging \<Rightarrow> status \<times> paging" where
  "page_map_loop kern viraddr phyaddr 0 flags s = (Success, s)"
| "page_map_loop kern viraddr phyaddr (Suc n) flags s =
     (case map_page kern viraddr phyaddr flags s of
        (st, s') \<Rightarrow>
          if st = Success
          then page_map_loop kern (viraddr + PAGE_SIZE) (phyaddr + PAGE_SIZE) n flags s'
          else (st, s'))"

definition page_map ::
  "(nat \<Rightarrow> bool) \<Rightarrow> size_t \<Rightarrow> size_t \<Rightarrow> size_t \<Rightarrow> size_t \<Rightarrow> paging \<Rightarrow> status \<times> paging" where
  "page_map kern viraddr phyaddr pages flags s =
     page_map_loop kern viraddr phyaddr (unat pages) flags s"

text \<open>
  Modelled from the spec: \<open>page_unmap\<close> clears present and address bits on every leaf
  Entry of the range; it reclaims no frame and removes no Table. A page whose Directory
  entry is absent has no leaf Entry to clear.
\<close>

definition unmap_page :: "size_t \<Rightarrow> paging \<Rightarrow> paging" where
  "unmap_page viraddr s =
     (let di = pgd_index viraddr; ti = pgt_index viraddr in
      if entry_has PG_PRESENT (pgd s di)
      then write_entry (table_frame s di) ti (pgt s di ti AND NOT (PAGE_MASK OR PG_PRESENT)) s
      else s)"

fun page_unmap_loop :: "size_t \<Rightarrow> nat \<Rightarrow> paging \<Rightarrow> paging" where
  "page_unmap_loop viraddr 0 s = s"
| "page_unmap_loop viraddr (Suc n) s = page_unmap_loop (viraddr + PAGE_SIZE) n (unmap_page viraddr s)"

definition page_unmap :: "size_t \<Rightarrow> size_t \<Rightarrow> paging \<Rightarrow> status \<times> paging" where
  "page_unmap viraddr pages s = (Success, page_unmap_loop viraddr (unat pages) s)"




subsection \<open>Well-formed address spaces\<close>

text \<open>
  The invariants of the spec's data model, on the frames: the Directory entry of index
  1023 is the recursive entry, present and referencing the Directory itself; every Table
  has exactly one parent, so no two present Directory entries reference the same frame;
  and the frames that the Frame Allocator holds are page-aligned, pairwise distinct and
  not in use as the Directory or as a Table.
\<close>

definition wf_space :: "paging \<Rightarrow> bool" where
  "wf_space s \<longleftrightarrow>
     entry_has PG_PRESENT (pgd s 1023) \<and> table_frame s 1023 = root s
     \<and> (\<forall>di dj. di < 1024 \<and> dj < 1024
           \<and> entry_has PG_PRESENT (pgd s di) \<and> entry_has PG_PRESENT (pgd s dj)
           \<and> table_frame s di = table_frame s dj \<longrightarrow> di = dj)
     \<and> distinct (frames s)
     \<and> (\<forall>f di. f \<in> set (frames s) \<longrightarrow>
           page_aligned f
           \<and> (di < 1024 \<and> entry_has PG_PRESENT (pgd s di) \<longrightarrow> table_frame s di \<noteq> f))"

subsection \<open>Ownership of frames\<close>










section \<open>Facts about the constants\<close>

lemmas pg_flag_defs =
  PG_PRESENT_def PG_RW_def PG_USER_def PG_PWT_def PG_PCD_def PG_ACCESSED_def
  PG_DIRTY_def PG_PSE_def PG_GLOBAL_def PG_BOOT_def

lemma page_mask_not: "NOT PAGE_MASK = (mask 12 :: size_t)"
  by (simp add: PAGE_MASK_def mask_eq_exp_minus_1)

lemma entries_mask: "PAGE_MAP_ENTRIES - 1 = (mask 10 :: size_t)"
  by (simp add: PAGE_MAP_ENTRIES_def PAGE_MAP_BITS_def mask_eq_exp_minus_1)

lemma pgd_index_lt: "pgd_index v < 1024"
proof -
  have "unat v < 2 ^ 32"
    using unsigned_less [of v, where 'a = nat] by simp
  then have "unat v div 2 ^ 22 < 2 ^ 10"
    by (simp add: less_mult_imp_div_less)
  then show ?thesis
    by (simp add: pgd_index_def PAGE_BITS_def PAGE_MAP_BITS_def drop_bit_eq_div unat_div)
qed

lemma pgt_index_lt: "pgt_index v < 1024"
proof -
  have "unat (take_bit 10 (drop_bit PAGE_BITS v)) < 2 ^ 10"
    using take_bit_nat_less_exp [of 10 "unat (drop_bit PAGE_BITS v)"]
    by (simp add: unsigned_take_bit_eq)
  then show ?thesis by (simp add: pgt_index_def entries_mask take_bit_eq_mask)
qed

lemma join_split: "join_address (pgd_index v) (pgt_index v) (page_offset v) = v"
  unfolding join_address_def pgd_index_def pgt_index_def page_offset_def page_mask_not entries_mask
    PAGE_BITS_def PAGE_MAP_BITS_def
  apply (rule bit_word_eqI)
  subgoal for n
    by (cases "n < 12"; cases "n < 22") (auto simp add: bit_simps)
  done

lemma bit_nat_small: "m < 2 ^ k \<Longrightarrow> bit (m::nat) n \<Longrightarrow> n < k"
  by (metis bit_take_bit_iff take_bit_nat_eq_self)

lemma bit_word_small:
  assumes "unat (w::size_t) < 2 ^ k" "bit w n" shows "n < k"
proof -
  have "bit (unat w) n"
    using assms(2) by (simp add: bit_unsigned_iff)
  with assms(1) show ?thesis by (rule bit_nat_small)
qed

lemma split_join:
  assumes "di < 1024" "ti < 1024" "off < 4096"
  shows "pgd_index (join_address di ti off) = di"
    and "pgt_index (join_address di ti off) = ti"
    and "page_offset (join_address di ti off) = off"
proof -
  have d: "bit di n \<Longrightarrow> n < 10" for n
    using assms(1) bit_nat_small [of di 10 n] by simp
  have t: "bit ti n \<Longrightarrow> n < 10" for n
    using assms(2) bit_nat_small [of ti 10 n] by simp
  have o: "bit off n \<Longrightarrow> n < 12" for n
    using assms(3) bit_word_small [of off 12 n] by (simp add: word_less_nat_alt)
  have "drop_bit 22 (join_address di ti off) = of_nat di"
    unfolding join_address_def PAGE_BITS_def PAGE_MAP_BITS_def
    by (rule bit_word_eqI) (auto simp add: bit_simps dest: d t o)
  moreover have "unat (of_nat di :: size_t) = di"
    using assms(1) by (simp add: unat_of_nat)
  ultimately show "pgd_index (join_address di ti off) = di"
    by (simp add: pgd_index_def PAGE_BITS_def PAGE_MAP_BITS_def)
  have "drop_bit 12 (join_address di ti off) AND mask 10 = of_nat ti"
    unfolding join_address_def PAGE_BITS_def PAGE_MAP_BITS_def
    by (rule bit_word_eqI) (auto simp add: bit_simps dest: d t o)
  moreover have "unat (of_nat ti :: size_t) = ti"
    using assms(2) by (simp add: unat_of_nat)
  ultimately show "pgt_index (join_address di ti off) = ti"
    by (simp add: pgt_index_def entries_mask PAGE_BITS_def)
  show "page_offset (join_address di ti off) = off"
    unfolding join_address_def page_offset_def page_mask_not PAGE_BITS_def PAGE_MAP_BITS_def
    by (rule bit_word_eqI) (auto simp add: bit_simps dest: d t o)
qed

lemma and_page_mask: "a AND PAGE_MASK = push_bit 12 (drop_bit 12 a)" for a :: size_t
  unfolding PAGE_MASK_def
proof -
  have "(0xFFFFF000 :: size_t) = NOT (mask 12)"
    by (simp add: mask_eq_exp_minus_1)
  then show "a AND 0xFFFFF000 = push_bit 12 (drop_bit 12 a)"
    by (simp add: bit_eq_iff bit_simps) (auto simp add: bit_simps dest: bit_imp_le_length)
qed

lemma page_ceil: "unat (PAGE_CEIL a) = unat a div 4096 * 4096"
proof -
  have lt: "unat a < 2 ^ 32"
    using unsigned_less [of a, where 'a = nat] by simp
  have x: "unat (drop_bit 12 a) = unat a div 4096"
    by (simp add: drop_bit_eq_div unat_div)
  have "unat (push_bit 12 (drop_bit 12 a)) = unat (drop_bit 12 a) * 4096 mod 2 ^ 32"
    by (simp add: push_bit_eq_mult unat_word_ariths mult.commute)
  then have "unat (PAGE_CEIL a) = (unat a div 4096 * 4096) mod 2 ^ 32"
    by (simp add: PAGE_CEIL_def and_page_mask x)
  moreover have "unat a div 4096 * 4096 \<le> unat a"
    by simp
  ultimately show ?thesis using lt by simp
qed

lemma unat_add_4095: "unat (a + PAGE_SIZE - 1) = (unat a + 4095) mod 2 ^ 32"
proof -
  have "a + PAGE_SIZE - 1 = a + 4095"
    by (simp add: PAGE_SIZE_def PAGE_BITS_def)
  then show ?thesis
    by (simp only: unat_word_ariths) simp
qed

lemma page_floor_ceil: "PAGE_FLOOR a = PAGE_CEIL (a + PAGE_SIZE - 1)"
  by (simp only: PAGE_FLOOR_def PAGE_CEIL_def)

lemma page_floor_no_wrap:
  assumes "a \<le> 0xFFFFF000"
  shows "unat (PAGE_FLOOR a) = (unat a + 4095) div 4096 * 4096"
proof -
  have le: "unat a \<le> 0xFFFFF000"
    using assms by (simp add: word_le_nat_alt)
  then have "unat (a + PAGE_SIZE - 1) = unat a + 4095"
    by (simp add: unat_add_4095)
  then show ?thesis
    by (simp only: page_floor_ceil page_ceil)
qed

lemma page_floor_wrap:
  assumes "0xFFFFF000 < a"
  shows "PAGE_FLOOR a = 0"
proof -
  have gt: "0xFFFFF000 < unat a"
    using assms by (simp add: word_less_nat_alt)
  have lt: "unat a < 2 ^ 32"
    using unsigned_less [of a, where 'a = nat] by simp
  have "(unat a + 4095) mod 2 ^ 32 = unat a + 4095 - 2 ^ 32"
    using gt lt by (simp add: mod_if)
  then have "unat (a + PAGE_SIZE - 1) < 4096"
    using lt by (simp add: unat_add_4095)
  then have "unat (a + PAGE_SIZE - 1) div 4096 = 0"
    by simp
  then have "unat (PAGE_FLOOR a) = 0"
    by (simp only: page_floor_ceil page_ceil)
  then show ?thesis
    by (simp only: unat_eq_0)
qed

lemma round_down_greatest:
  fixes x m n :: nat
  assumes "n dvd m" "m \<le> x"
  shows "m \<le> x div n * n"
proof -
  obtain k where k: "m = k * n"
    using assms(1) by (auto simp add: dvd_def mult.commute)
  have "m div n \<le> x div n"
    using assms(2) by (rule div_le_mono)
  then have "m div n * n \<le> x div n * n"
    by (rule mult_le_mono1)
  then show ?thesis
    using assms(1) by simp
qed

lemma round_up_above:
  fixes x n :: nat
  assumes "0 < n"
  shows "x \<le> (x + (n - 1)) div n * n"
proof -
  have "(x + (n - 1)) mod n < n"
    using assms by simp
  then have "(x + (n - 1)) mod n \<le> n - 1"
    by linarith
  moreover have "(x + (n - 1)) div n * n + (x + (n - 1)) mod n = x + (n - 1)"
    by simp
  ultimately show ?thesis
    by linarith
qed

lemma round_up_least:
  fixes x m n :: nat
  assumes "0 < n" "n dvd m" "x \<le> m"
  shows "(x + (n - 1)) div n * n \<le> m"
proof -
  have "(x + (n - 1)) div n \<le> (m + (n - 1)) div n"
    using assms(3) by (intro div_le_mono) simp
  also have "(m + (n - 1)) div n = m div n"
  proof -
    obtain k where k: "m = k * n"
      using assms(2) by (auto simp add: dvd_def mult.commute)
    have "(n - 1 + k * n) div n = (n - 1) div n + k"
      using assms(1) by (simp only: div_mult_self1)
    then show ?thesis
      using assms(1) by (simp add: k add.commute)
  qed
  finally have "(x + (n - 1)) div n * n \<le> m div n * n"
    by (rule mult_le_mono1)
  then show ?thesis
    using assms(2) by simp
qed

lemma and_push_bit_nonzero:
  "(w AND push_bit b 1 \<noteq> 0) = bit w b" for w :: "32 word"
  by (simp add: and_exp_eq_0_iff_not_bit)

section \<open>Entry flag layout\<close>

text \<open>
  Claim C4. The ten Entry flag masks sit at bits 0 to 9 in the order present, writable,
  user-accessible, write-through, cache-disabled, accessed, dirty, large-page, global,
  boot-marker; they are pairwise distinct, each is below \<open>2^12\<close>, and \<open>PAGE_MASK\<close> is
  \<open>0xFFFFF000\<close>, whose set bits are exactly bits 12 to 31 (the high-order 20 bits).
\<close>

theorem entry_flag_layout:
  "entry_flag_masks = [2 ^ 0, 2 ^ 1, 2 ^ 2, 2 ^ 3, 2 ^ 4, 2 ^ 5, 2 ^ 6, 2 ^ 7, 2 ^ 8, 2 ^ 9]
   \<and> distinct entry_flag_masks
   \<and> list_all (\<lambda>m. m < 2 ^ 12) entry_flag_masks
   \<and> PAGE_MASK = 0xFFFFF000
   \<and> PAGE_MASK = NOT (2 ^ 12 - 1)
   \<and> (\<forall>n. bit PAGE_MASK n = (12 \<le> n \<and> n < 32))"
proof -
  have vals: "entry_flag_masks = [1, 2, 4, 8, 16, 32, 64, 128, 256, 512]"
    by (simp add: entry_flag_masks_def pg_flag_defs)
  have mask: "PAGE_MASK = NOT (mask 12)"
    by (simp add: PAGE_MASK_def mask_eq_exp_minus_1)
  have bits: "bit PAGE_MASK n = (12 \<le> n \<and> n < 32)" for n
    unfolding mask by (auto simp add: bit_simps)
  show ?thesis
    using bits by (simp add: vals mask mask_eq_exp_minus_1)
qed

section \<open>Address decomposition\<close>

text \<open>
  Claim C5. Every 32-bit virtual address splits into a directory index (bits 22 to 31), a
  table index (bits 12 to 21) and an in-page offset (bits 0 to 11), each within its width,
  and recombining the three parts gives the address back; conversely every triple within
  the widths is the split of its recombination, so the decomposition is a bijection. Each
  table level has \<open>PAGE_MAP_ENTRIES = 2 ^ PAGE_MAP_BITS = 1024\<close> entries, and
  \<open>PAGE_MAP_LEVELS * PAGE_MAP_BITS + PAGE_BITS = 32 = VIRT_BITS\<close>.
\<close>

theorem address_decomposition:
  "join_address (pgd_index v) (pgt_index v) (page_offset v) = v
   \<and> pgd_index v < 2 ^ PAGE_MAP_BITS \<and> pgt_index v < 2 ^ PAGE_MAP_BITS
   \<and> page_offset v < 2 ^ PAGE_BITS
   \<and> (\<forall>n. bit (of_nat (pgd_index v) :: size_t) n = bit v (n + 22))
   \<and> (\<forall>n. bit (of_nat (pgt_index v) :: size_t) n = (n < 10 \<and> bit v (n + 12)))
   \<and> (\<forall>n. bit (page_offset v) n = (n < 12 \<and> bit v n))
   \<and> (di < 1024 \<and> ti < 1024 \<and> off < 4096 \<longrightarrow>
         pgd_index (join_address di ti off) = di
         \<and> pgt_index (join_address di ti off) = ti
         \<and> page_offset (join_address di ti off) = off)
   \<and> PAGE_MAP_ENTRIES = 2 ^ PAGE_MAP_BITS \<and> PAGE_MAP_ENTRIES = 1024
   \<and> PAGE_MAP_LEVELS * PAGE_MAP_BITS + PAGE_BITS = 32 \<and> VIRT_BITS = 32"
proof -
  have off: "page_offset v < 2 ^ PAGE_BITS"
    unfolding page_offset_def page_mask_not PAGE_BITS_def
    by (rule and_mask_less') simp
  have d: "bit (of_nat (pgd_index v) :: size_t) n = bit v (n + 22)" for n
    by (simp add: pgd_index_def PAGE_BITS_def PAGE_MAP_BITS_def bit_simps add.commute)
  have t: "bit (of_nat (pgt_index v) :: size_t) n = (n < 10 \<and> bit v (n + 12))" for n
    by (auto simp add: pgt_index_def entries_mask PAGE_BITS_def bit_simps add.commute)
  have o: "bit (page_offset v) n = (n < 12 \<and> bit v n)" for n
    by (auto simp add: page_offset_def page_mask_not bit_simps)
  have cs: "PAGE_MAP_ENTRIES = 2 ^ PAGE_MAP_BITS" "PAGE_MAP_ENTRIES = 1024"
    "PAGE_MAP_LEVELS * PAGE_MAP_BITS + PAGE_BITS = 32" "VIRT_BITS = 32"
    by (simp_all add: PAGE_MAP_ENTRIES_def PAGE_MAP_BITS_def PAGE_MAP_LEVELS_def PAGE_BITS_def
        VIRT_BITS_def BITS_def)
  show ?thesis
    using off d t o cs pgd_index_lt [of v] pgt_index_lt [of v]
    by (simp add: join_split split_join PAGE_MAP_BITS_def)
qed

theorem address_decomposition_witness:
  "(256 :: nat) < 1024 \<and> (2 :: nat) < 1024 \<and> (0x234 :: size_t) < 4096
   \<and> join_address 256 2 0x234 = 0x40002234
   \<and> pgd_index 0x40002234 = 256 \<and> pgt_index 0x40002234 = 2
   \<and> page_offset 0x40002234 = 0x234"
proof -
  have j: "join_address 256 2 0x234 = 0x40002234"
    by (simp add: join_address_def PAGE_BITS_def PAGE_MAP_BITS_def)
  have h: "(256 :: nat) < 1024 \<and> (2 :: nat) < 1024 \<and> (0x234 :: size_t) < 4096"
    by simp
  with address_decomposition [of "0x40002234" 256 2 "0x234"]
  have "pgd_index (join_address 256 2 0x234) = 256
    \<and> pgt_index (join_address 256 2 0x234) = 2
    \<and> page_offset (join_address 256 2 0x234) = 0x234"
    by blast
  with h show ?thesis
    by (simp add: j)
qed

section \<open>Self-map window\<close>

text \<open>
  Claim C6. Both self-map window constants are page-aligned (multiples of 4096), and
  \<open>PAGE_MAP_PGD = PAGE_MAP_PGT + 1023 * PAGE_SIZE\<close>: the Directory appears at the slot of
  the table window that belongs to directory index 1023, where the address of the Table
  of a directory index is \<open>PAGE_MAP_PGT\<close> plus the index times \<open>PAGE_SIZE\<close>.
\<close>

theorem self_map_window:
  "page_aligned PAGE_MAP_PGD \<and> page_aligned PAGE_MAP_PGT
   \<and> 4096 dvd unat PAGE_MAP_PGD \<and> 4096 dvd unat PAGE_MAP_PGT
   \<and> PAGE_MAP_PGD = PAGE_MAP_PGT + 1023 * PAGE_SIZE
   \<and> pgt_window 1023 = PAGE_MAP_PGD
   \<and> pgt_window 0 = PAGE_MAP_PGT
   \<and> pgd_index PAGE_MAP_PGT = 1023
   \<and> unat PAGE_MAP_PGT + 1023 * unat PAGE_SIZE = unat PAGE_MAP_PGD"
  by (simp add: page_aligned_def pgt_window_def pgd_index_def PAGE_MAP_PGD_def PAGE_MAP_PGT_def
      PAGE_MASK_def PAGE_SIZE_def PAGE_BITS_def PAGE_MAP_BITS_def drop_bit_eq_div)

section \<open>Page rounding macros\<close>

text \<open>
  Claim C9. \<open>PAGE_CEIL addr\<close> is the greatest multiple of 4096 that is at most
  \<open>addr\<close> (it rounds down). \<open>PAGE_FLOOR addr\<close> is the least multiple of 4096 that is at
  least \<open>addr\<close> (it rounds up) whenever \<open>addr \<le> 0xFFFFF000\<close>, and it is 0 for every
  \<open>addr > 0xFFFFF000\<close>, where the addition wraps around modulo \<open>2 ^ 32\<close>.
\<close>

theorem page_round_macros:
  "4096 dvd unat (PAGE_CEIL a) \<and> unat (PAGE_CEIL a) \<le> unat a
     \<and> (\<forall>m. 4096 dvd m \<and> m \<le> unat a \<longrightarrow> m \<le> unat (PAGE_CEIL a))
   \<and> (a \<le> 0xFFFFF000 \<longrightarrow>
        4096 dvd unat (PAGE_FLOOR a) \<and> unat a \<le> unat (PAGE_FLOOR a)
        \<and> (\<forall>m. 4096 dvd m \<and> unat a \<le> m \<longrightarrow> unat (PAGE_FLOOR a) \<le> m))
   \<and> (0xFFFFF000 < a \<longrightarrow> PAGE_FLOOR a = 0)"
proof -
  have c: "4096 dvd m \<and> m \<le> unat a \<longrightarrow> m \<le> unat a div 4096 * 4096" for m
    using round_down_greatest [of 4096 m "unat a"] by blast
  have f: "4096 dvd m \<and> unat a \<le> m \<longrightarrow> (unat a + 4095) div 4096 * 4096 \<le> m" for m
    using round_up_least [of 4096 m "unat a"] by simp
  have f': "unat a \<le> (unat a + 4095) div 4096 * 4096"
    using round_up_above [of 4096 "unat a"] by simp
  show ?thesis
    using c f f' by (simp add: page_ceil page_floor_no_wrap page_floor_wrap)
qed

theorem page_round_macros_witness:
  "PAGE_CEIL 0x1234 = 0x1000 \<and> PAGE_FLOOR 0x1234 = 0x2000 \<and> PAGE_FLOOR 0x2000 = 0x2000
   \<and> PAGE_FLOOR 0xFFFFF001 = 0
   \<and> (0x1234 :: size_t) \<le> 0xFFFFF000 \<and> (0xFFFFF000 :: size_t) < 0xFFFFF001
   \<and> 4096 dvd unat (PAGE_FLOOR 0x1234)"
  using page_round_macros [of "0x1234"] page_round_macros [of "0xFFFFF001"]
  by (simp add: PAGE_CEIL_def PAGE_FLOOR_def PAGE_MASK_def PAGE_SIZE_def PAGE_BITS_def)

section \<open>The page-attribute-table flag\<close>

text \<open>
  Claim C10. \<open>PG_PAT\<close> is defined as \<open>PG_PSE\<close>, both are \<open>2 ^ 7\<close>, and the test of
  \<open>PG_PAT\<close> on an Entry is the same function of the Entry as the test of \<open>PG_PSE\<close>.
\<close>

theorem pat_is_pse:
  "PG_PAT = PG_PSE \<and> PG_PAT = 2 ^ 7 \<and> PG_PSE = 2 ^ 7
   \<and> entry_has PG_PAT = entry_has PG_PSE
   \<and> (\<forall>e. entry_has PG_PAT e = bit e 7)"
proof -
  have "entry_has PG_PAT e = bit e 7" for e
    unfolding entry_has_def PG_PAT_def PG_PSE_def by (rule and_push_bit_nonzero)
  then show ?thesis
    by (simp add: PG_PAT_def PG_PSE_def)
qed

section \<open>CPU feature accessors\<close>

lemmas cpu_feature_defs =
  CPU_FEATURE_FPU_def CPU_FEATURE_MSR_def CPU_FEATURE_APIC_def CPU_FEATURE_FXSR_def
  CPU_FEATURE_SSE_def CPU_FEATURE_SSE2_def CPU_FEATURE_X2APIC_def CPU_FEATURE_AVX_def
  CPU_FEATURE_HYPERVISOR_def

text \<open>
  Claim C7. Each CPU feature accessor leaves the machine state as it found it, returns
  the same result in any two states whose \<open>cpu_info\<close> is equal, and returns nonzero
  exactly when its bit of \<open>cpu_info\<close> is set: bits 0, 5, 9, 24, 25 and 26 of
  \<open>feature1\<close> for FPU, MSR, APIC, FXSR, SSE and SSE2, and bits 21, 28 and 31 of
  \<open>feature2\<close> for x2APIC, AVX and the hypervisor flag.
\<close>

theorem cpu_feature_accessors:
  "reads_feature_bit has_fpu feature1 0
   \<and> reads_feature_bit has_msr feature1 5
   \<and> reads_feature_bit has_apic feature1 9
   \<and> reads_feature_bit has_fxsr feature1 24
   \<and> reads_feature_bit has_sse feature1 25
   \<and> reads_feature_bit has_sse2 feature1 26
   \<and> reads_feature_bit has_x2apic feature2 21
   \<and> reads_feature_bit has_avx feature2 28
   \<and> reads_feature_bit on_hypervisor feature2 31"
  unfolding reads_feature_bit_def has_fpu_def has_msr_def has_apic_def has_fxsr_def
    has_sse_def has_sse2_def has_x2apic_def has_avx_def on_hypervisor_def cpu_feature_defs
    fst_conv snd_conv and_push_bit_nonzero
  by simp

theorem cpu_feature_accessors_witness:
  "fst (has_fpu \<lparr>cpu_info = \<lparr>feature1 = 0x201, feature2 = 0x80000000\<rparr>\<rparr>) \<noteq> 0
   \<and> fst (has_msr \<lparr>cpu_info = \<lparr>feature1 = 0x201, feature2 = 0x80000000\<rparr>\<rparr>) = 0
   \<and> fst (on_hypervisor \<lparr>cpu_info = \<lparr>feature1 = 0x201, feature2 = 0x80000000\<rparr>\<rparr>) \<noteq> 0
   \<and> snd (has_apic \<lparr>cpu_info = \<lparr>feature1 = 0x201, feature2 = 0x80000000\<rparr>\<rparr>)
       = \<lparr>cpu_info = \<lparr>feature1 = 0x201, feature2 = 0x80000000\<rparr>\<rparr>
   \<and> fst (has_avx \<lparr>cpu_info = \<lparr>feature1 = 0x201, feature2 = 0x80000000\<rparr>, \<dots> = True\<rparr>)
       = fst (has_avx \<lparr>cpu_info = \<lparr>feature1 = 0x201, feature2 = 0x80000000\<rparr>, \<dots> = False\<rparr>)"
proof -
  let ?ci = "\<lparr>feature1 = 0x201, feature2 = 0x80000000\<rparr>"
  let ?s = "\<lparr>cpu_info = ?ci\<rparr>"
  have fpu: "reads_feature_bit (has_fpu :: machine \<Rightarrow> _) feature1 0"
    and msr: "reads_feature_bit (has_msr :: machine \<Rightarrow> _) feature1 5"
    and apic: "reads_feature_bit (has_apic :: machine \<Rightarrow> _) feature1 9"
    and hyp: "reads_feature_bit (on_hypervisor :: machine \<Rightarrow> _) feature2 31"
    and avx: "reads_feature_bit (has_avx :: bool machine_scheme \<Rightarrow> _) feature2 28"
    using cpu_feature_accessors by blast+
  have "(fst (has_fpu ?s) \<noteq> 0) = bit (feature1 (cpu_info ?s)) 0"
    using fpu unfolding reads_feature_bit_def by blast
  then have 1: "fst (has_fpu ?s) \<noteq> 0"
    by simp
  have "(fst (has_msr ?s) \<noteq> 0) = bit (feature1 (cpu_info ?s)) 5"
    using msr unfolding reads_feature_bit_def by blast
  then have 2: "fst (has_msr ?s) = 0"
    by simp
  have "(fst (on_hypervisor ?s) \<noteq> 0) = bit (feature2 (cpu_info ?s)) 31"
    using hyp unfolding reads_feature_bit_def by blast
  then have 3: "fst (on_hypervisor ?s) \<noteq> 0"
    by simp
  have 4: "snd (has_apic ?s) = ?s"
    using apic unfolding reads_feature_bit_def by blast
  have eq: "cpu_info \<lparr>cpu_info = ?ci, \<dots> = True\<rparr> = cpu_info \<lparr>cpu_info = ?ci, \<dots> = False\<rparr>"
    by simp
  have 5: "fst (has_avx \<lparr>cpu_info = ?ci, \<dots> = True\<rparr>) = fst (has_avx \<lparr>cpu_info = ?ci, \<dots> = False\<rparr>)"
    using avx eq unfolding reads_feature_bit_def by blast
  show ?thesis
    using 1 2 3 4 5 by blast
qed

section \<open>System-call numbers\<close>

lemmas syscall_defs =
  NR_exit_def NR_write_def NR_open_def NR_close_def NR_read_def NR_lseek_def
  NR_unlink_def NR_getpid_def NR_kill_def NR_fstat_def NR_sbrk_def NR_fork_def
  NR_wait_def NR_execve_def NR_times_def NR_accept_def NR_bind_def NR_closesocket_def
  NR_connect_def NR_listen_def NR_recv_def NR_send_def NR_socket_def NR_getsockopt_def
  NR_setsockopt_def NR_gethostbyname_def NR_sendto_def NR_recvfrom_def NR_select_def
  NR_stat_def NR_dup_def NR_dup2_def


lemma syscall_numbers_eq:
  "syscall_numbers =
     [0, 1, 2, 3, 4, 6, 7, 8, 9, 10, 11, 12, 13, 14, 15, 16, 17, 18, 19, 20, 21, 22, 23, 24, 25,
      26, 27, 28, 29, 30, 31, 32]"
  by (simp add: syscall_numbers_def syscall_defs)

lemma syscall_numbers_set: "set syscall_numbers = {0..32} - {5}"
proof -
  have eq: "syscall_numbers = [0..4] @ [6..32]"
    unfolding syscall_numbers_eq by (simp add: upto.simps)
  have "set syscall_numbers = {0..4} \<union> {6..32}"
    unfolding eq set_append set_upto by (rule refl)
  also have "\<dots> = {0..32} - {5}"
    by auto
  finally show ?thesis .
qed

text \<open>
  Claim C8. The system-call numbers \<open>__NR_exit\<close> to \<open>__NR_dup2\<close> are pairwise distinct,
  each lies between 0 and 32, and together they are all of 0 to 32 but 5, the one gap,
  between \<open>__NR_read = 4\<close> and \<open>__NR_lseek = 6\<close>.
\<close>

theorem syscall_number_table:
  "distinct syscall_numbers
   \<and> list_all (\<lambda>n. 0 \<le> n \<and> n \<le> 32) syscall_numbers
   \<and> set syscall_numbers = {0..32} - {5}
   \<and> length syscall_numbers = 32
   \<and> NR_read = 4 \<and> NR_lseek = 6"
  by (simp add: syscall_numbers_set) (simp add: syscall_numbers_eq NR_read_def NR_lseek_def)

section \<open>Translation after mapping and unmapping\<close>

lemma present_bit: "entry_has PG_PRESENT e = bit e 0"
  unfolding entry_has_def PG_PRESENT_def by (rule and_push_bit_nonzero)

lemma page_aligned_bits: "page_aligned a = (\<forall>n < 12. \<not> bit a n)"
proof
  assume al: "page_aligned a"
  show "\<forall>n < 12. \<not> bit a n"
  proof (intro allI impI)
    fix n :: nat
    assume n: "n < 12"
    have "\<not> bit (a AND mask 12) n"
      using al by (simp add: page_aligned_def page_mask_not)
    with n show "\<not> bit a n"
      by (simp add: bit_simps)
  qed
next
  assume "\<forall>n < 12. \<not> bit a n"
  then have "a AND mask 12 = 0"
    by (intro bit_word_eqI) (auto simp add: bit_simps)
  then show "page_aligned a"
    by (simp add: page_aligned_def page_mask_not)
qed

lemma page_mask_bits: "bit PAGE_MASK n = (12 \<le> n \<and> n < 32)"
proof -
  have m: "PAGE_MASK = NOT (mask 12)"
    by (simp add: PAGE_MASK_def mask_eq_exp_minus_1)
  show ?thesis
    unfolding m by (auto simp add: bit_simps)
qed

lemma page_aligned_offset: "page_aligned a \<Longrightarrow> page_offset a = 0"
  by (simp add: page_aligned_def page_offset_def)

lemma page_aligned_mask: "page_aligned a \<Longrightarrow> a AND PAGE_MASK = a"
  by (rule bit_word_eqI) (auto simp add: bit_simps page_mask_bits page_aligned_bits not_less)

lemma page_aligned_push_bit: "page_aligned (push_bit 12 x)"
  by (simp add: page_aligned_bits bit_simps)

lemma page_aligned_add:
  assumes "page_aligned a"
  shows "page_aligned (a + PAGE_SIZE)"
proof -
  have "a = push_bit 12 (drop_bit 12 a)"
    using assms and_page_mask [of a] by (simp add: page_aligned_mask)
  moreover have "PAGE_SIZE = push_bit 12 1"
    by (simp add: PAGE_SIZE_def PAGE_BITS_def)
  ultimately have "a + PAGE_SIZE = push_bit 12 (drop_bit 12 a + 1)"
    by (simp only: push_bit_add)
  then show ?thesis
    by (simp only: page_aligned_push_bit)
qed

lemma leaf_entry:
  assumes "page_aligned p" "flags AND PAGE_MASK = 0"
  shows "entry_has PG_PRESENT (p OR flags OR PG_PRESENT)"
    and "(p OR flags OR PG_PRESENT) AND PAGE_MASK = p"
proof -
  show "entry_has PG_PRESENT (p OR flags OR PG_PRESENT)"
    unfolding present_bit by (simp add: bit_simps PG_PRESENT_def)
  have f: "\<not> (bit flags n \<and> 12 \<le> n)" for n
  proof
    assume a: "bit flags n \<and> 12 \<le> n"
    then have "n < 32"
      using bit_imp_le_length [of flags n] by simp
    with a have "bit (flags AND PAGE_MASK) n"
      by (simp add: bit_simps page_mask_bits)
    with assms(2) show False by simp
  qed
  show "(p OR flags OR PG_PRESENT) AND PAGE_MASK = p"
    using assms(1) f
    by (intro bit_word_eqI)
      (auto simp add: bit_simps page_mask_bits page_aligned_bits PG_PRESENT_def not_less
        dest: bit_imp_le_length)
qed

lemma same_slot_aligned:
  assumes "page_aligned v" "page_aligned w"
    and "pgd_index w = pgd_index v" "pgt_index w = pgt_index v"
  shows "w = v"
proof -
  have "w = join_address (pgd_index w) (pgt_index w) (page_offset w)"
    by (simp add: join_split)
  also have "\<dots> = join_address (pgd_index v) (pgt_index v) (page_offset v)"
    using assms by (simp add: page_aligned_offset)
  also have "\<dots> = v"
    by (simp add: join_split)
  finally show ?thesis .
qed

lemma write_entry_simps:
  "root (write_entry f i e s) = root s"
  "frames (write_entry f i e s) = frames s"
  "mem (write_entry f i e s) g k = (if g = f \<and> k = i then e else mem s g k)"
  by (simp_all add: write_entry_def)

lemma zero_frame_simps:
  "root (zero_frame f s) = root s"
  "frames (zero_frame f s) = frames s"
  "mem (zero_frame f s) g k = (if g = f then 0 else mem s g k)"
  by (simp_all add: zero_frame_def)

lemma not_present_zero: "\<not> entry_has PG_PRESENT 0"
  by (simp add: entry_has_def)

lemma cleared_not_present:
  "\<not> entry_has PG_PRESENT (e AND NOT (PAGE_MASK OR PG_PRESENT))"
  "\<not> entry_has PG_PRESENT (e AND NOT PAGE_MASK AND NOT PG_PRESENT)"
  unfolding present_bit by (simp_all add: bit_simps PG_PRESENT_def)

lemma not_present_iff:
  "(virt_to_phys s w = Inl NotPresent)
   = (\<not> entry_has PG_PRESENT (pgd s (pgd_index w))
      \<or> \<not> entry_has PG_PRESENT (pgt s (pgd_index w) (pgt_index w)))"
  by (simp add: virt_to_phys_def Let_def)

text \<open>A write that only clears Entries leaves every page that was not present so.\<close>

lemma cleared_keeps_not_present:
  assumes r: "root s' = root s"
    and m: "\<And>g k. entry_has PG_PRESENT (mem s' g k) \<Longrightarrow> mem s' g k = mem s g k"
    and np: "virt_to_phys s w = Inl NotPresent"
  shows "virt_to_phys s' w = Inl NotPresent"
proof (rule ccontr)
  assume "virt_to_phys s' w \<noteq> Inl NotPresent"
  then have d': "entry_has PG_PRESENT (pgd s' (pgd_index w))"
    and t': "entry_has PG_PRESENT (pgt s' (pgd_index w) (pgt_index w))"
    by (simp_all add: not_present_iff)
  from d' have d: "pgd s' (pgd_index w) = pgd s (pgd_index w)"
    unfolding pgd_def r using m [of "root s" "pgd_index w"] by (simp add: r)
  then have f: "table_frame s' (pgd_index w) = table_frame s (pgd_index w)"
    by (simp add: table_frame_def)
  from t' have "pgt s' (pgd_index w) (pgt_index w) = pgt s (pgd_index w) (pgt_index w)"
    unfolding pgt_def f by (rule m)
  with d d' t' have "virt_to_phys s w \<noteq> Inl NotPresent"
    by (simp add: not_present_iff)
  with np show False by simp
qed

lemma unmap_page_mem:
  "entry_has PG_PRESENT (mem (unmap_page a s) g k) \<Longrightarrow> mem (unmap_page a s) g k = mem s g k"
  by (auto simp add: unmap_page_def Let_def write_entry_simps pgt_def cleared_not_present
      split: if_splits)

lemma unmap_page_root: "root (unmap_page a s) = root s"
  by (simp add: unmap_page_def Let_def write_entry_simps)

lemma unmap_page_keeps_not_present:
  "virt_to_phys s w = Inl NotPresent \<Longrightarrow> virt_to_phys (unmap_page a s) w = Inl NotPresent"
  by (rule cleared_keeps_not_present [OF unmap_page_root unmap_page_mem])

lemma unmap_page_not_present:
  assumes "pgd_index w = pgd_index a" "pgt_index w = pgt_index a"
  shows "virt_to_phys (unmap_page a s) w = Inl NotPresent"
proof (cases "entry_has PG_PRESENT (pgd s (pgd_index a))")
  case False
  then show ?thesis
    using assms by (simp add: unmap_page_def Let_def not_present_iff)
next
  case True
  let ?s' = "unmap_page a s"
  show ?thesis
  proof (rule ccontr)
    assume "virt_to_phys ?s' w \<noteq> Inl NotPresent"
    then have d': "entry_has PG_PRESENT (pgd ?s' (pgd_index a))"
      and t': "entry_has PG_PRESENT (pgt ?s' (pgd_index a) (pgt_index a))"
      using assms by (simp_all add: not_present_iff)
    from d' have "pgd ?s' (pgd_index a) = pgd s (pgd_index a)"
      unfolding pgd_def unmap_page_root by (rule unmap_page_mem)
    then have f: "table_frame ?s' (pgd_index a) = table_frame s (pgd_index a)"
      by (simp add: table_frame_def)
    have "pgt ?s' (pgd_index a) (pgt_index a)
      = pgt s (pgd_index a) (pgt_index a) AND NOT (PAGE_MASK OR PG_PRESENT)"
      unfolding pgt_def f using True
      by (simp add: unmap_page_def Let_def write_entry_simps pgt_def)
    with t' show False
      by (simp only: cleared_not_present)
  qed
qed

lemma page_unmap_loop_not_present:
  assumes "(\<exists>j < n. pgd_index w = pgd_index (v + of_nat j * PAGE_SIZE)
              \<and> pgt_index w = pgt_index (v + of_nat j * PAGE_SIZE))
           \<or> virt_to_phys s w = Inl NotPresent"
  shows "virt_to_phys (page_unmap_loop v n s) w = Inl NotPresent"
  using assms
proof (induction n arbitrary: v s)
  case 0
  then show ?case by simp
next
  case (Suc n)
  let ?hit = "\<lambda>a. pgd_index w = pgd_index a \<and> pgt_index w = pgt_index a"
  have ex: "(\<exists>j < Suc n. ?hit (v + of_nat j * PAGE_SIZE))
    = (?hit v \<or> (\<exists>j < n. ?hit (v + PAGE_SIZE + of_nat j * PAGE_SIZE)))"
  proof -
    have "(\<exists>j < Suc n. ?hit (v + of_nat j * PAGE_SIZE))
      = (?hit (v + of_nat 0 * PAGE_SIZE) \<or> (\<exists>j < n. ?hit (v + of_nat (Suc j) * PAGE_SIZE)))"
      by (metis (no_types, lifting) less_Suc_eq_0_disj)
    then show ?thesis
      by (simp add: algebra_simps)
  qed
  from Suc.prems ex consider
    (first) "?hit v"
    | (later) "\<exists>j < n. ?hit (v + PAGE_SIZE + of_nat j * PAGE_SIZE)"
    | (before) "virt_to_phys s w = Inl NotPresent"
    by blast
  then have "(\<exists>j < n. ?hit (v + PAGE_SIZE + of_nat j * PAGE_SIZE))
      \<or> virt_to_phys (unmap_page v s) w = Inl NotPresent"
  proof cases
    case first
    then show ?thesis by (simp add: unmap_page_not_present)
  next
    case later
    then show ?thesis by blast
  next
    case before
    then show ?thesis by (simp add: unmap_page_keeps_not_present)
  qed
  then have "virt_to_phys (page_unmap_loop (v + PAGE_SIZE) n (unmap_page v s)) w = Inl NotPresent"
    by (rule Suc.IH)
  then show ?case by simp
qed

lemma bit_push_bit_1: "bit (push_bit m (1 :: size_t)) n = (n = m \<and> m < 32)"
  by (auto simp add: bit_exp_iff)

lemma flag_bits:
  "bit PG_PRESENT n = (n = 0)" "bit PG_RW n = (n = 1)" "bit PG_USER n = (n = 2)"
  unfolding PG_PRESENT_def PG_RW_def PG_USER_def bit_push_bit_1 by simp_all

lemma table_entry:
  assumes "page_aligned f"
  shows "entry_has PG_PRESENT (f OR PG_PRESENT OR PG_RW OR (if k then 0 else PG_USER))"
    and "(f OR PG_PRESENT OR PG_RW OR (if k then 0 else PG_USER)) AND PAGE_MASK = f"
proof -
  show "entry_has PG_PRESENT (f OR PG_PRESENT OR PG_RW OR (if k then 0 else PG_USER))"
    unfolding present_bit by (simp add: bit_or_iff flag_bits)
  show "(f OR PG_PRESENT OR PG_RW OR (if k then 0 else PG_USER)) AND PAGE_MASK = f"
    using assms
    by (intro bit_word_eqI)
      (auto simp add: bit_and_iff bit_or_iff flag_bits page_mask_bits page_aligned_bits not_less
        dest: bit_imp_le_length)
qed

lemma below_window:
  assumes "a < PAGE_MAP_PGT"
  shows "pgd_index a \<noteq> 1023"
proof -
  have "unat a < 1023 * 2 ^ 22"
    using assms by (simp add: word_less_nat_alt PAGE_MAP_PGT_def)
  then have "unat a div 2 ^ 22 < 1023"
    by (simp add: less_mult_imp_div_less)
  then show ?thesis
    by (simp add: pgd_index_def PAGE_BITS_def PAGE_MAP_BITS_def drop_bit_eq_div unat_div)
qed

lemma wf_one_parent:
  assumes "wf_space s" "di < 1024" "dj < 1024"
    and "entry_has PG_PRESENT (pgd s di)" "entry_has PG_PRESENT (pgd s dj)"
    and "table_frame s di = table_frame s dj"
  shows "di = dj"
proof -
  have "\<forall>di dj. di < 1024 \<and> dj < 1024
      \<and> entry_has PG_PRESENT (pgd s di) \<and> entry_has PG_PRESENT (pgd s dj)
      \<and> table_frame s di = table_frame s dj \<longrightarrow> di = dj"
    using assms(1) unfolding wf_space_def by (elim conjE)
  then show ?thesis
    using assms(2-6) by blast
qed

lemma wf_self_map:
  assumes "wf_space s"
  shows "entry_has PG_PRESENT (pgd s 1023)" "table_frame s 1023 = root s"
  using assms unfolding wf_space_def by simp_all

lemma wf_free:
  assumes "wf_space s" "f \<in> set (frames s)"
  shows "page_aligned f"
    and "di < 1024 \<Longrightarrow> entry_has PG_PRESENT (pgd s di) \<Longrightarrow> table_frame s di \<noteq> f"
proof -
  have "\<forall>f di. f \<in> set (frames s) \<longrightarrow>
           page_aligned f
           \<and> (di < 1024 \<and> entry_has PG_PRESENT (pgd s di) \<longrightarrow> table_frame s di \<noteq> f)"
    using assms(1) unfolding wf_space_def by (elim conjE)
  then show "page_aligned f"
    and "di < 1024 \<Longrightarrow> entry_has PG_PRESENT (pgd s di) \<Longrightarrow> table_frame s di \<noteq> f"
    using assms(2) by blast+
qed

lemma wf_table_not_root:
  assumes "wf_space s" "di < 1024" "di \<noteq> 1023" "entry_has PG_PRESENT (pgd s di)"
  shows "table_frame s di \<noteq> root s"
proof
  assume "table_frame s di = root s"
  then have "table_frame s di = table_frame s 1023"
    by (simp add: wf_self_map [OF assms(1)])
  then have "di = 1023"
    using wf_one_parent [OF assms(1,2) _ assms(4) wf_self_map(1) [OF assms(1)]] by simp
  with assms(3) show False by simp
qed

lemma wf_free_not_root:
  assumes "wf_space s" "f \<in> set (frames s)"
  shows "f \<noteq> root s"
  using wf_free(2) [OF assms, of 1023] wf_self_map [OF assms(1)] by auto

lemma map_page_present:
  assumes wf: "wf_space s" and w: "pgd_index a \<noteq> 1023"
    and pr: "entry_has PG_PRESENT (pgd s (pgd_index a))"
    and mp: "map_page kern a p flags s = (st, s')"
  shows "st = Success" and "root s' = root s" and "frames s' = frames s"
    and "pgd s' dj = pgd s dj"
    and "pgt s' dj tj =
      (if table_frame s dj = table_frame s (pgd_index a) \<and> tj = pgt_index a
       then p OR flags OR PG_PRESENT else pgt s dj tj)"
proof -
  have s': "s' = write_entry (table_frame s (pgd_index a)) (pgt_index a)
      (p OR flags OR PG_PRESENT) s" and "st = Success"
    using mp pr by (simp_all add: map_page_def Let_def)
  then show "st = Success" by simp
  have nr: "table_frame s (pgd_index a) \<noteq> root s"
    using wf pgd_index_lt w pr by (rule wf_table_not_root)
  show "root s' = root s" "frames s' = frames s"
    by (simp_all add: s' write_entry_simps)
  show d: "pgd s' dj = pgd s dj" for dj
    using nr by (auto simp add: s' pgd_def write_entry_simps)
  then have "table_frame s' dj = table_frame s dj"
    by (simp add: table_frame_def)
  then show "pgt s' dj tj =
      (if table_frame s dj = table_frame s (pgd_index a) \<and> tj = pgt_index a
       then p OR flags OR PG_PRESENT else pgt s dj tj)"
    by (simp add: pgt_def) (simp add: s' write_entry_simps)
qed

lemma map_page_absent:
  assumes wf: "wf_space s" and w: "pgd_index a \<noteq> 1023"
    and ab: "\<not> entry_has PG_PRESENT (pgd s (pgd_index a))"
    and mp: "map_page kern a p flags s = (Success, s')"
  shows "root s' = root s" and "frames s = table_frame s' (pgd_index a) # frames s'"
    and "pgd s' dj = (if dj = pgd_index a then pgd s' (pgd_index a) else pgd s dj)"
    and "entry_has PG_PRESENT (pgd s' (pgd_index a))"
    and "pgt s' (pgd_index a) tj = (if tj = pgt_index a then p OR flags OR PG_PRESENT else 0)"
    and "g \<noteq> table_frame s' (pgd_index a) \<Longrightarrow> g \<noteq> root s \<Longrightarrow> mem s' g = mem s g"
proof -
  let ?di = "pgd_index a" and ?ti = "pgt_index a"
  obtain f fs where fr: "frames s = f # fs"
    using mp ab by (cases "frames s") (simp_all add: map_page_def Let_def frame_alloc_def)
  let ?E = "f OR PG_PRESENT OR PG_RW OR (if kern ?di then 0 else PG_USER)"
  let ?s1 = "zero_frame f (s\<lparr>frames := fs\<rparr>)"
  let ?s2 = "write_entry (root ?s1) ?di ?E ?s1"
  have s': "s' = write_entry (table_frame ?s2 ?di) ?ti (p OR flags OR PG_PRESENT) ?s2"
    using mp ab by (simp add: map_page_def Let_def frame_alloc_def fr)
  have f: "f \<in> set (frames s)"
    by (simp add: fr)
  have al: "page_aligned f"
    using wf f by (rule wf_free(1))
  have fr_root: "f \<noteq> root s"
    using wf f by (rule wf_free_not_root)
  have tf2: "table_frame ?s2 ?di = f"
    by (simp add: table_frame_def pgd_def write_entry_simps zero_frame_simps table_entry(2) [OF al])
  have s'': "s' = write_entry f ?ti (p OR flags OR PG_PRESENT) ?s2"
    by (simp only: s' tf2)
  show r: "root s' = root s"
    by (simp add: s'' write_entry_simps zero_frame_simps)
  have d: "pgd s' dj = (if dj = ?di then ?E else pgd s dj)" for dj
    using fr_root by (simp add: s'' pgd_def write_entry_simps zero_frame_simps)
  then have tf: "table_frame s' ?di = f"
    by (simp add: table_frame_def table_entry(2) [OF al])
  show "frames s = table_frame s' ?di # frames s'"
    by (simp add: tf fr) (simp add: s'' write_entry_simps zero_frame_simps)
  show "pgd s' dj = (if dj = ?di then pgd s' ?di else pgd s dj)"
    by (simp add: d)
  show "entry_has PG_PRESENT (pgd s' ?di)"
    by (simp add: d table_entry(1) [OF al])
  show "pgt s' ?di tj = (if tj = ?ti then p OR flags OR PG_PRESENT else 0)"
    using fr_root by (simp add: pgt_def tf) (simp add: s'' write_entry_simps zero_frame_simps)
  show "mem s' g = mem s g" if "g \<noteq> table_frame s' ?di" "g \<noteq> root s"
    using that unfolding tf
    by (intro ext) (simp add: s'' write_entry_simps zero_frame_simps)
qed

lemma map_page_lookup:
  assumes wf: "wf_space s" and a: "pgd_index a \<noteq> 1023"
    and mp: "map_page kern a p flags s = (Success, s')"
    and p: "page_aligned p" and fl: "flags AND PAGE_MASK = 0"
    and w: "pgd_index w \<noteq> 1023"
  shows "virt_to_phys s' w =
    (if pgd_index w = pgd_index a \<and> pgt_index w = pgt_index a
     then Inr (p + page_offset w) else virt_to_phys s w)"
proof (cases "entry_has PG_PRESENT (pgd s (pgd_index a))")
  case True
  note m = map_page_present [OF wf a True mp]
  show ?thesis
  proof (cases "entry_has PG_PRESENT (pgd s (pgd_index w))")
    case False
    with True have "pgd_index w \<noteq> pgd_index a"
      by auto
    with False show ?thesis
      by (simp add: virt_to_phys_def Let_def m(4))
  next
    case pw: True
    have "(table_frame s (pgd_index w) = table_frame s (pgd_index a))
      = (pgd_index w = pgd_index a)"
      using wf_one_parent [OF wf pgd_index_lt pgd_index_lt pw True] by auto
    then show ?thesis
      using leaf_entry [OF p fl] pw
      by (simp add: virt_to_phys_def Let_def m(4) m(5))
  qed
next
  case False
  note m = map_page_absent [OF wf a False mp]
  let ?f = "table_frame s' (pgd_index a)"
  have f: "?f \<in> set (frames s)"
    by (simp add: m(2))
  show ?thesis
  proof (cases "pgd_index w = pgd_index a")
    case True
    then show ?thesis
      using False leaf_entry [OF p fl] m(4)
      by (simp add: virt_to_phys_def Let_def m(5) not_present_zero)
  next
    case neq: False
    then have d: "pgd s' (pgd_index w) = pgd s (pgd_index w)"
      using m(3) [of "pgd_index w"] by simp
    show ?thesis
    proof (cases "entry_has PG_PRESENT (pgd s (pgd_index w))")
      case False
      then show ?thesis
        using neq by (simp add: virt_to_phys_def Let_def d)
    next
      case pw: True
      have t: "table_frame s' (pgd_index w) = table_frame s (pgd_index w)"
        by (simp add: table_frame_def d)
      have "table_frame s (pgd_index w) \<noteq> ?f"
        using wf f pgd_index_lt pw by (rule wf_free(2))
      moreover have "table_frame s (pgd_index w) \<noteq> root s"
        using wf pgd_index_lt w pw by (rule wf_table_not_root)
      ultimately have "mem s' (table_frame s (pgd_index w)) = mem s (table_frame s (pgd_index w))"
        by (rule m(6))
      then have "pgt s' (pgd_index w) (pgt_index w) = pgt s (pgd_index w) (pgt_index w)"
        by (simp add: pgt_def t)
      then show ?thesis
        using neq by (simp add: virt_to_phys_def Let_def d)
    qed
  qed
qed

lemma map_page_wf:
  assumes wf: "wf_space s" and a: "pgd_index a \<noteq> 1023"
    and mp: "map_page kern a p flags s = (Success, s')"
  shows "wf_space s'"
proof (cases "entry_has PG_PRESENT (pgd s (pgd_index a))")
  case True
  note m = map_page_present [OF wf a True mp]
  have "pgd s' = pgd s"
    by (intro ext) (rule m(4))
  then show ?thesis
    using wf by (simp add: wf_space_def table_frame_def m(2) m(3))
next
  case False
  note m = map_page_absent [OF wf a False mp]
  let ?di = "pgd_index a"
  let ?f = "table_frame s' ?di"
  have f: "?f \<in> set (frames s)"
    by (simp add: m(2))
  have dist: "distinct (?f # frames s')"
    using wf unfolding wf_space_def m(2) [symmetric] by simp
  have old: "pgd s' dj = pgd s dj" "table_frame s' dj = table_frame s dj" if "dj \<noteq> ?di" for dj
    using that m(3) [of dj] by (simp_all add: table_frame_def)
  have pres: "entry_has PG_PRESENT (pgd s dj)"
    if "entry_has PG_PRESENT (pgd s' dj)" "dj \<noteq> ?di" for dj
    using that by (simp add: old)
  have fresh: "table_frame s' dj \<noteq> ?f"
    if "dj < 1024" "entry_has PG_PRESENT (pgd s' dj)" "dj \<noteq> ?di" for dj
    using wf_free(2) [OF wf f that(1) pres [OF that(2,3)]] that(3) by (simp add: old)
  have sm: "entry_has PG_PRESENT (pgd s' 1023)" "table_frame s' 1023 = root s'"
    using a wf_self_map [OF wf] by (simp_all add: old m(1))
  have one: "di = dj"
    if "di < 1024" "dj < 1024" "entry_has PG_PRESENT (pgd s' di)"
      "entry_has PG_PRESENT (pgd s' dj)" "table_frame s' di = table_frame s' dj" for di dj
  proof (cases "di = ?di"; cases "dj = ?di")
    assume "di = ?di" "dj = ?di"
    then show ?thesis by simp
  next
    assume "di = ?di" "dj \<noteq> ?di"
    then show ?thesis
      using fresh [OF that(2,4)] that(5) by simp
  next
    assume "di \<noteq> ?di" "dj = ?di"
    then show ?thesis
      using fresh [OF that(1,3)] that(5) by simp
  next
    assume n: "di \<noteq> ?di" "dj \<noteq> ?di"
    show ?thesis
      using wf_one_parent [OF wf that(1,2) pres [OF that(3) n(1)] pres [OF that(4) n(2)]]
        that(5) n by (simp add: old)
  qed
  have free: "page_aligned g
      \<and> (dj < 1024 \<and> entry_has PG_PRESENT (pgd s' dj) \<longrightarrow> table_frame s' dj \<noteq> g)"
    if "g \<in> set (frames s')" for g dj
  proof -
    have g: "g \<in> set (frames s)"
      using that by (simp add: m(2))
    have "g \<noteq> ?f"
      using dist that by auto
    moreover have "table_frame s' dj \<noteq> g"
      if "dj < 1024" "entry_has PG_PRESENT (pgd s' dj)" "dj \<noteq> ?di"
      using wf_free(2) [OF wf g that(1) pres [OF that(2,3)]] that(3) by (simp add: old)
    ultimately show ?thesis
      using wf_free(1) [OF wf g] by blast
  qed
  show ?thesis
    unfolding wf_space_def using sm one free dist by (intro conjI allI impI) auto
qed

lemma page_map_loop_wf_lookup:
  assumes "page_map_loop kern v p n flags s = (Success, s')"
    and "wf_space s" and "page_aligned p" and "flags AND PAGE_MASK = 0" and "page_aligned v"
    and "\<forall>j < n. pgd_index (v + of_nat j * PAGE_SIZE) \<noteq> 1023"
    and "page_aligned w" and "pgd_index w \<noteq> 1023"
  shows "virt_to_phys s' w =
    (if \<exists>j < n. v + of_nat j * PAGE_SIZE = w then Inr (p + (w - v)) else virt_to_phys s w)"
  using assms
proof (induction n arbitrary: v p s)
  case 0
  then show ?case by simp
next
  case (Suc n)
  obtain st s1 where m: "map_page kern v p flags s = (st, s1)"
    by (cases "map_page kern v p flags s")
  have st: "st = Success"
    using Suc.prems(1) m by (auto split: if_splits)
  then have rest: "page_map_loop kern (v + PAGE_SIZE) (p + PAGE_SIZE) n flags s1 = (Success, s')"
    using Suc.prems(1) m by simp
  have m': "map_page kern v p flags s = (Success, s1)"
    using m st by simp
  have v: "pgd_index v \<noteq> 1023"
    using Suc.prems(6) by (metis add.right_neutral mult_zero_left of_nat_0 zero_less_Suc)
  have later: "\<forall>j < n. pgd_index (v + PAGE_SIZE + of_nat j * PAGE_SIZE) \<noteq> 1023"
  proof (intro allI impI)
    fix j assume "j < n"
    then have "pgd_index (v + of_nat (Suc j) * PAGE_SIZE) \<noteq> 1023"
      using Suc.prems(6) by (meson Suc_less_eq)
    then show "pgd_index (v + PAGE_SIZE + of_nat j * PAGE_SIZE) \<noteq> 1023"
      by (simp add: algebra_simps)
  qed
  have wf1: "wf_space s1"
    using Suc.prems(2) v m' by (rule map_page_wf)
  have "(pgd_index w = pgd_index v \<and> pgt_index w = pgt_index v) = (w = v)"
    using Suc.prems(5,7) same_slot_aligned by blast
  then have one: "virt_to_phys s1 w = (if w = v then Inr p else virt_to_phys s w)"
    using map_page_lookup [OF Suc.prems(2) v m' Suc.prems(3,4,8)] Suc.prems(5,7)
    by (auto simp add: page_aligned_offset)
  have ih: "virt_to_phys s' w =
    (if \<exists>j < n. v + PAGE_SIZE + of_nat j * PAGE_SIZE = w
     then Inr (p + PAGE_SIZE + (w - (v + PAGE_SIZE))) else virt_to_phys s1 w)"
    using Suc.IH [OF rest wf1 _ Suc.prems(4) _ later Suc.prems(7,8)] Suc.prems(3,5)
    by (simp add: page_aligned_add)
  have ex: "(\<exists>j < Suc n. v + of_nat j * PAGE_SIZE = w)
    = (w = v \<or> (\<exists>j < n. v + PAGE_SIZE + of_nat j * PAGE_SIZE = w))"
  proof -
    have "(\<exists>j < Suc n. v + of_nat j * PAGE_SIZE = w)
      = (v + of_nat 0 * PAGE_SIZE = w \<or> (\<exists>j < n. v + of_nat (Suc j) * PAGE_SIZE = w))"
      by (metis (no_types, lifting) less_Suc_eq_0_disj)
    then show ?thesis
      by (auto simp add: algebra_simps)
  qed
  show ?case
  proof (cases "\<exists>j < n. v + PAGE_SIZE + of_nat j * PAGE_SIZE = w")
    case True
    then have "virt_to_phys s' w = Inr (p + PAGE_SIZE + (w - (v + PAGE_SIZE)))"
      by (simp only: ih if_True)
    also have "p + PAGE_SIZE + (w - (v + PAGE_SIZE)) = p + (w - v)"
      by simp
    finally show ?thesis
      using True by (simp only: ex if_True simp_thms)
  next
    case False
    then have "virt_to_phys s' w = (if w = v then Inr p else virt_to_phys s w)"
      by (simp only: ih one if_False)
    then show ?thesis
      using False by (simp only: ex simp_thms) simp
  qed
qed

lemma page_aligned_add_pages:
  assumes "page_aligned a"
  shows "page_aligned (a + of_nat i * PAGE_SIZE)"
proof (induction i)
  case 0
  with assms show ?case by simp
next
  case (Suc i)
  have "a + of_nat (Suc i) * PAGE_SIZE = a + of_nat i * PAGE_SIZE + PAGE_SIZE"
    by (simp add: algebra_simps)
  with Suc show ?case
    by (simp only: page_aligned_add)
qed

text \<open>
  An address space right after the bootstrap transition: the Directory in frame
  \<open>0x1000\<close> holds the recursive entry and nothing else.
\<close>

lemma boot_space:
  fixes fs :: "size_t list"
  defines "s \<equiv> \<lparr>root = 0x1000, mem = (\<lambda>_ _. 0)(0x1000 := (\<lambda>_. 0)(1023 := 0x1003)), frames = fs\<rparr>"
  shows "pgd s di = (if di = 1023 then 0x1003 else 0)"
    and "(\<forall>f \<in> set fs. page_aligned f \<and> f \<noteq> 0x1000) \<Longrightarrow> distinct fs \<Longrightarrow> wf_space s"
proof -
  show d: "pgd s di = (if di = 1023 then 0x1003 else 0)" for di
    by (simp add: s_def pgd_def)
  have p: "entry_has PG_PRESENT (pgd s di) = (di = 1023)" for di
    by (simp add: d entry_has_def PG_PRESENT_def)
  have t: "table_frame s 1023 = 0x1000"
    by (simp add: table_frame_def d PAGE_MASK_def)
  have r: "root s = 0x1000" "frames s = fs"
    by (simp_all add: s_def)
  assume "\<forall>f \<in> set fs. page_aligned f \<and> f \<noteq> 0x1000" "distinct fs"
  then show "wf_space s"
    unfolding wf_space_def p by (auto simp add: t r)
qed

lemma scenario_indices:
  "pgd_index 0x40000000 = 256" "pgt_index 0x40000000 = 0"
  "pgd_index 0x40001000 = 256" "pgt_index 0x40001000 = 1"
  "pgd_index 0x40002000 = 256" "pgt_index 0x40002000 = 2"
  "pgd_index 0xFFFFF000 = 1023" "pgt_index 0xFFFFF000 = 1023"
  "pgd_index 0x000B8000 = 0" "pgt_index 0x000B8000 = 184"
  by (simp_all add: pgd_index_def pgt_index_def entries_mask PAGE_BITS_def PAGE_MAP_BITS_def
      drop_bit_eq_div mask_eq_exp_minus_1)

lemmas eval_defs =
  map_page_def Let_def pgd_def pgt_def table_frame_def write_entry_def zero_frame_def
  frame_alloc_def entry_has_def PG_PRESENT_def PG_RW_def PG_USER_def PAGE_MASK_def
  PAGE_SIZE_def PAGE_BITS_def scenario_indices

lemma scenario_A:
  "page_map (\<lambda>di. di < 256) 0x40000000 0x00100000 3 7
     \<lparr>root = 0x1000, mem = (\<lambda>_ _. 0)(0x1000 := (\<lambda>_. 0)(1023 := 0x1003)),
      frames = [0x00200000]\<rparr>
   = (Success,
      \<lparr>root = 0x1000,
       mem = (\<lambda>_ _. 0)
         (0x1000 := (\<lambda>_. 0)(1023 := 0x1003, 256 := 0x00200007),
          0x00200000 := (\<lambda>_. 0)(0 := 0x00100007, 1 := 0x00101007, 2 := 0x00102007)),
       frames = []\<rparr>)"
proof -
  have u: "unat (3 :: size_t) = Suc (Suc (Suc 0))"
    by simp
  show ?thesis
    unfolding page_map_def u by (simp add: eval_defs fun_upd_twist)
qed

lemma scenario_window:
  "page_map (\<lambda>di. di < 256) 0xFFFFF000 0x00500000 1 3
     \<lparr>root = 0x1000, mem = (\<lambda>_ _. 0)(0x1000 := (\<lambda>_. 0)(1023 := 0x1003)), frames = []\<rparr>
   = (Success,
      \<lparr>root = 0x1000, mem = (\<lambda>_ _. 0)(0x1000 := (\<lambda>_. 0)(1023 := 0x00500003)),
       frames = []\<rparr>)"
proof -
  have u: "unat (1 :: size_t) = Suc 0"
    by simp
  show ?thesis
    unfolding page_map_def u by (simp add: eval_defs)
qed

text \<open>
  Claim C1, as stated, fails inside the self-map window. On the address space that holds
  only the recursive entry, \<open>page_map\<close> of the page-aligned \<open>0xFFFFF000\<close> to the
  page-aligned \<open>0x00500000\<close>, one page, flags present and writable, succeeds; the leaf
  Entry it writes is Directory entry 1023, so afterwards the window no longer shows the
  Directory and \<open>virt_to_phys 0xFFFFF000\<close> signals not-present.
\<close>

theorem page_map_window_counterexample:
  "wf_space \<lparr>root = 0x1000, mem = (\<lambda>_ _. 0)(0x1000 := (\<lambda>_. 0)(1023 := 0x1003)), frames = []\<rparr>
   \<and> page_aligned 0xFFFFF000 \<and> page_aligned 0x00500000 \<and> 0 < unat (1 :: size_t)
   \<and> 3 AND PAGE_MASK = 0
   \<and> fst (page_map (\<lambda>di. di < 256) 0xFFFFF000 0x00500000 1 3
        \<lparr>root = 0x1000, mem = (\<lambda>_ _. 0)(0x1000 := (\<lambda>_. 0)(1023 := 0x1003)), frames = []\<rparr>)
       = Success
   \<and> virt_to_phys
        (snd (page_map (\<lambda>di. di < 256) 0xFFFFF000 0x00500000 1 3
           \<lparr>root = 0x1000, mem = (\<lambda>_ _. 0)(0x1000 := (\<lambda>_. 0)(1023 := 0x1003)), frames = []\<rparr>))
        (0xFFFFF000 + of_nat 0 * PAGE_SIZE) = Inl NotPresent
   \<and> virt_to_phys
        (snd (page_map (\<lambda>di. di < 256) 0xFFFFF000 0x00500000 1 3
           \<lparr>root = 0x1000, mem = (\<lambda>_ _. 0)(0x1000 := (\<lambda>_. 0)(1023 := 0x1003)), frames = []\<rparr>))
        (0xFFFFF000 + of_nat 0 * PAGE_SIZE) \<noteq> Inr (0x00500000 + of_nat 0 * PAGE_SIZE)"
proof -
  have "wf_space \<lparr>root = 0x1000, mem = (\<lambda>_ _. 0)(0x1000 := (\<lambda>_. 0)(1023 := 0x1003)),
      frames = []\<rparr>"
    by (rule boot_space(2)) simp_all
  moreover have "page_aligned 0xFFFFF000" "page_aligned 0x00500000" "3 AND PAGE_MASK = 0"
    by (simp_all add: page_aligned_def PAGE_MASK_def)
  moreover have "virt_to_phys
      \<lparr>root = 0x1000, mem = (\<lambda>_ _. 0)(0x1000 := (\<lambda>_. 0)(1023 := 0x00500003)), frames = []\<rparr>
      0xFFFFF000 = Inl NotPresent"
    by (simp add: virt_to_phys_def eval_defs)
  ultimately show ?thesis
    by (simp add: scenario_window)
qed

text \<open>
  Claim C1, amended. On a well-formed address space, for page-aligned \<open>v\<close> and \<open>p\<close>, a
  page count \<open>n > 0\<close> and a flag set \<open>flags\<close> (bits among the low 12, where an Entry
  keeps its flags), if every page of the range lies below the self-map window (below
  \<open>PAGE_MAP_PGT\<close>): after a successful \<open>page_map v p n flags\<close>,
  \<open>virt_to_phys (v + i * 4096)\<close> returns \<open>p + i * 4096\<close> for every page offset \<open>i < n\<close>.
\<close>

theorem page_map_translates:
  assumes "wf_space s"
    and "page_aligned v" and "page_aligned p" and "0 < unat pages"
    and "flags AND PAGE_MASK = 0"
    and "\<forall>j < unat pages. v + of_nat j * PAGE_SIZE < PAGE_MAP_PGT"
    and "page_map kern v p pages flags s = (Success, s')"
    and "i < unat pages"
  shows "virt_to_phys s' (v + of_nat i * PAGE_SIZE) = Inr (p + of_nat i * PAGE_SIZE)"
proof -
  let ?w = "v + of_nat i * PAGE_SIZE"
  have loop: "page_map_loop kern v p (unat pages) flags s = (Success, s')"
    using assms(7) by (simp add: page_map_def)
  have below: "\<forall>j < unat pages. pgd_index (v + of_nat j * PAGE_SIZE) \<noteq> 1023"
    using assms(6) below_window by blast
  then have wi: "pgd_index ?w \<noteq> 1023"
    using assms(8) by blast
  have w: "page_aligned ?w"
    using assms(2) by (rule page_aligned_add_pages)
  have "\<exists>j < unat pages. v + of_nat j * PAGE_SIZE = ?w"
    using assms(8) by blast
  then have "virt_to_phys s' ?w = Inr (p + (?w - v))"
    by (simp only: page_map_loop_wf_lookup [OF loop assms(1,3,5,2) below w wi] if_True)
  then show ?thesis
    by simp
qed

theorem page_map_translates_witness:
  "wf_space \<lparr>root = 0x1000, mem = (\<lambda>_ _. 0)(0x1000 := (\<lambda>_. 0)(1023 := 0x1003)),
      frames = [0x00200000]\<rparr>
   \<and> page_aligned 0x40000000 \<and> page_aligned 0x00100000 \<and> 0 < unat (3 :: size_t)
   \<and> 7 AND PAGE_MASK = 0 \<and> 2 < unat (3 :: size_t)
   \<and> 0x40000000 < PAGE_MAP_PGT \<and> 0x40001000 < PAGE_MAP_PGT \<and> 0x40002000 < PAGE_MAP_PGT
   \<and> fst (page_map (\<lambda>di. di < 256) 0x40000000 0x00100000 3 7
        \<lparr>root = 0x1000, mem = (\<lambda>_ _. 0)(0x1000 := (\<lambda>_. 0)(1023 := 0x1003)),
         frames = [0x00200000]\<rparr>) = Success
   \<and> virt_to_phys
        (snd (page_map (\<lambda>di. di < 256) 0x40000000 0x00100000 3 7
           \<lparr>root = 0x1000, mem = (\<lambda>_ _. 0)(0x1000 := (\<lambda>_. 0)(1023 := 0x1003)),
            frames = [0x00200000]\<rparr>))
        0x40002000 = Inr 0x00102000"
proof -
  let ?s = "\<lparr>root = 0x1000, mem = (\<lambda>_ _. 0)(0x1000 := (\<lambda>_. 0)(1023 := 0x1003)),
      frames = [0x00200000 :: size_t]\<rparr>"
  let ?r = "page_map (\<lambda>di. di < 256) 0x40000000 0x00100000 3 7 ?s"
  have wf: "wf_space ?s"
    by (rule boot_space(2)) (simp_all add: page_aligned_def PAGE_MASK_def)
  have h: "page_aligned 0x40000000" "page_aligned 0x00100000" "0 < unat (3 :: size_t)"
    "7 AND PAGE_MASK = 0" "2 < unat (3 :: size_t)"
    by (simp_all add: page_aligned_def PAGE_MASK_def)
  have b: "0x40000000 < PAGE_MAP_PGT" "0x40001000 < PAGE_MAP_PGT" "0x40002000 < PAGE_MAP_PGT"
    by (simp_all add: PAGE_MAP_PGT_def)
  have below: "\<forall>j < unat (3 :: size_t). 0x40000000 + of_nat j * PAGE_SIZE < PAGE_MAP_PGT"
  proof (intro allI impI)
    fix j assume "j < unat (3 :: size_t)"
    then have "j = 0 \<or> j = 1 \<or> j = 2"
      by auto
    then show "0x40000000 + of_nat j * PAGE_SIZE < PAGE_MAP_PGT"
      by (auto simp add: PAGE_MAP_PGT_def PAGE_SIZE_def PAGE_BITS_def)
  qed
  have pm: "?r = (Success, snd ?r)"
    by (simp add: scenario_A)
  have "virt_to_phys (snd ?r) (0x40000000 + of_nat 2 * PAGE_SIZE)
    = Inr (0x00100000 + of_nat 2 * PAGE_SIZE)"
    by (rule page_map_translates [OF wf h(1) h(2) h(3) h(4) below pm h(5)])
  then have "virt_to_phys (snd ?r) 0x40002000 = Inr 0x00102000"
    by (simp add: PAGE_SIZE_def PAGE_BITS_def)
  moreover have "fst ?r = Success"
    by (simp add: scenario_A)
  ultimately show ?thesis
    using wf h b by blast
qed

text \<open>
  Claim C3. For a page-aligned \<open>v\<close> and a page count \<open>n\<close>: after \<open>page_unmap v n\<close> is applied
  to a range that a successful \<open>page_map\<close> has mapped, \<open>virt_to_phys\<close> signals not-present
  on each of the \<open>n\<close> pages of the range.
\<close>

theorem page_unmap_not_present:
  assumes "page_aligned v"
    and "page_map kern v p pages flags s = (Success, s1)"
    and "page_unmap v pages s1 = (st, s2)"
    and "i < unat pages"
  shows "virt_to_phys s2 (v + of_nat i * PAGE_SIZE) = Inl NotPresent"
proof -
  have s2: "s2 = page_unmap_loop v (unat pages) s1"
    using assms(3) by (simp add: page_unmap_def)
  show ?thesis
    unfolding s2 using assms(4) by (intro page_unmap_loop_not_present) blast
qed

theorem page_unmap_not_present_witness:
  "page_aligned 0x40000000 \<and> 1 < unat (3 :: size_t)
   \<and> fst (page_map (\<lambda>di. di < 256) 0x40000000 0x00100000 3 7
        \<lparr>root = 0x1000, mem = (\<lambda>_ _. 0)(0x1000 := (\<lambda>_. 0)(1023 := 0x1003)),
         frames = [0x00200000]\<rparr>) = Success
   \<and> virt_to_phys
        (snd (page_map (\<lambda>di. di < 256) 0x40000000 0x00100000 3 7
           \<lparr>root = 0x1000, mem = (\<lambda>_ _. 0)(0x1000 := (\<lambda>_. 0)(1023 := 0x1003)),
            frames = [0x00200000]\<rparr>))
        0x40001000 = Inr 0x00101000
   \<and> virt_to_phys
        (snd (page_unmap 0x40000000 3
           (snd (page_map (\<lambda>di. di < 256) 0x40000000 0x00100000 3 7
              \<lparr>root = 0x1000, mem = (\<lambda>_ _. 0)(0x1000 := (\<lambda>_. 0)(1023 := 0x1003)),
               frames = [0x00200000]\<rparr>))))
        0x40001000 = Inl NotPresent"
proof -
  let ?r = "page_map (\<lambda>di. di < 256) 0x40000000 0x00100000 3 7
      \<lparr>root = 0x1000, mem = (\<lambda>_ _. 0)(0x1000 := (\<lambda>_. 0)(1023 := 0x1003)),
       frames = [0x00200000]\<rparr>"
  let ?u = "page_unmap 0x40000000 3 (snd ?r)"
  have h: "page_aligned 0x40000000" "1 < unat (3 :: size_t)"
    by (simp_all add: page_aligned_def PAGE_MASK_def)
  have pm: "?r = (Success, snd ?r)"
    by (simp add: scenario_A)
  have um: "?u = (fst ?u, snd ?u)"
    by simp
  have "virt_to_phys (snd ?u) (0x40000000 + of_nat 1 * PAGE_SIZE) = Inl NotPresent"
    by (rule page_unmap_not_present [OF h(1) pm um h(2)])
  moreover have "(0x40000000 :: size_t) + of_nat 1 * PAGE_SIZE = 0x40001000"
    by (simp add: PAGE_SIZE_def PAGE_BITS_def)
  moreover have "virt_to_phys (snd ?r) 0x40001000 = Inr 0x00101000"
    by (simp add: scenario_A virt_to_phys_def eval_defs page_offset_def)
  ultimately show ?thesis
    using h pm by (metis fst_conv)
qed

section \<open>Tearing down an address space\<close>


















text \<open>
  Two address spaces that \<open>page_map\<close> builds from the one that holds only the recursive
  entry. In the first, two pages of the private/user range are mapped to the one frame
  \<open>0x00100000\<close>. In the second, frame \<open>0x000B8000\<close> is mapped once in the shared/kernel
  range and once in the private/user range.
\<close>

lemma twice_mapped_reached:
  "page_map (\<lambda>di. di < 256 \<or> di = 1023) 0x40002000 0x00100000 1 7
     (snd (page_map (\<lambda>di. di < 256 \<or> di = 1023) 0x40000000 0x00100000 1 7
        \<lparr>root = 0x1000, mem = (\<lambda>_ _. 0)(0x1000 := (\<lambda>_. 0)(1023 := 0x1003)),
         frames = [0x00200000]\<rparr>))
   = (Success,
      \<lparr>root = 0x1000,
       mem = (\<lambda>_ _. 0)
         (0x1000 := (\<lambda>_. 0)(1023 := 0x1003, 256 := 0x00200007),
          0x00200000 := (\<lambda>_. 0)(0 := 0x00100007, 2 := 0x00100007)),
       frames = []\<rparr>)"
proof -
  have u: "unat (1 :: size_t) = Suc 0"
    by simp
  show ?thesis
    unfolding page_map_def u by (simp add: eval_defs fun_upd_twist)
qed

lemma shared_mapped_reached:
  "page_map (\<lambda>di. di < 256 \<or> di = 1023) 0x40000000 0x000B8000 1 7
     (snd (page_map (\<lambda>di. di < 256 \<or> di = 1023) 0x000B8000 0x000B8000 1 3
        \<lparr>root = 0x1000, mem = (\<lambda>_ _. 0)(0x1000 := (\<lambda>_. 0)(1023 := 0x1003)),
         frames = [0x00300000, 0x00200000]\<rparr>))
   = (Success,
      \<lparr>root = 0x1000,
       mem = (\<lambda>_ _. 0)
         (0x1000 := (\<lambda>_. 0)(1023 := 0x1003, 0 := 0x00300003, 256 := 0x00200007),
          0x00300000 := (\<lambda>_. 0)(184 := 0x000B8003),
          0x00200000 := (\<lambda>_. 0)(0 := 0x000B8007)),
       frames = []\<rparr>)"
proof -
  have u: "unat (1 :: size_t) = Suc 0"
    by simp
  show ?thesis
    unfolding page_map_def u by (simp add: eval_defs fun_upd_twist)
qed








end
